theory Spec2Isabelle
  imports Main
begin

section \<open>JavaScript values, the store and the runtime functions EnumLike calls\<close>

text \<open>
  \<^verbatim>\<open>EnumLike\<close> is one TypeScript function with two copies in the repository:
  \<^verbatim>\<open>lib/type-utils/enum-like/enum-like.ts\<close> (the one the README names as the core
  implementation) and \<^verbatim>\<open>lib/enum-like.ts\<close>. Both take one parameter of any runtime
  type and build a new object with \<^verbatim>\<open>Object.fromEntries\<close>.

  Values are the primitives and references into a store of arrays and plain objects.
  Number values are the safe integers, of magnitude at most \<open>2^53 - 1\<close>, whose
  \<^verbatim>\<open>ToString\<close> is the exact decimal numeral; larger numbers, fractions, \<^verbatim>\<open>NaN\<close>,
  symbols, bigints and functions are outside the model. Array
  elements are primitives: the parameter type \<^verbatim>\<open>(keyof T)[]\<close> of both copies admits
  property keys only. Objects are plain objects whose own properties are enumerable
  data properties with string keys.
\<close>

datatype prim = JUndefined | JNull | JBool bool | JNum int | JStr string

datatype val = Prim prim | Ref nat

type_synonym props = "(string \<times> val) list"

datatype cell = Arr "prim list" | Obj props

type_synonym store = "cell list"

datatype error = TypeError

subsection \<open>Numerals as property keys\<close>

definition digit_char :: "nat \<Rightarrow> char" where
  "digit_char d = ''0123456789'' ! d"

fun string_of_nat :: "nat \<Rightarrow> string" where
  "string_of_nat n =
     (if n < 10 then [digit_char n] else string_of_nat (n div 10) @ [digit_char (n mod 10)])"

declare string_of_nat.simps [simp del]

text \<open>
  The value of a decimal digit is its position among the digits; a character that is not
  a digit gets 10, so that a string holding one is never the numeral of its value.
\<close>

definition digit_val :: "char \<Rightarrow> nat" where
  "digit_val c = length (takeWhile (\<lambda>d. d \<noteq> c) ''0123456789'')"

definition nat_of_string :: "string \<Rightarrow> nat" where
  "nat_of_string s = foldl (\<lambda>n c. 10 * n + digit_val c) 0 s"

text \<open>
  ECMAScript: a property key is an array index when it is a canonical numeric string
  (converting it to a number and back gives the same string) whose value is an integer
  in the range from 0 to \<open>2^32 - 2\<close>.
\<close>

definition is_array_index :: "string \<Rightarrow> bool" where
  "is_array_index s \<longleftrightarrow>
     string_of_nat (nat_of_string s) = s \<and> nat_of_string s < 4294967295"

text \<open>
  \<^verbatim>\<open>Number::toString\<close> on a safe integer (\<^verbatim>\<open>Number.isSafeInteger\<close>: magnitude at most
  \<open>2^53 - 1\<close>) gives its exact decimal numeral. Beyond the safe integers JavaScript rounds
  the digits (\<open>2^63\<close> prints as \<^verbatim>\<open>'9223372036854776000'\<close>) and from \<open>10^21\<close> on prints an
  exponent (\<^verbatim>\<open>'1e+21'\<close>); \<open>ToString_number\<close> does not describe that, so a \<open>JNum\<close> that is
  not a safe integer stands for no value of the model, and the properties of the keys of
  an array are stated for arrays whose elements satisfy \<open>safe_key\<close>.
\<close>

definition safe_integer :: "int \<Rightarrow> bool" where
  "safe_integer i \<longleftrightarrow> - 9007199254740991 \<le> i \<and> i \<le> 9007199254740991"

fun safe_key :: "prim \<Rightarrow> bool" where
  "safe_key (JNum i) = safe_integer i"
| "safe_key p = True"

definition ToString_number :: "int \<Rightarrow> string" where
  "ToString_number i = (if i < 0 then CHR ''-'' # string_of_nat (nat (- i)) else string_of_nat (nat i))"

fun ToPropertyKey :: "prim \<Rightarrow> string" where
  "ToPropertyKey JUndefined = ''undefined''"
| "ToPropertyKey JNull = ''null''"
| "ToPropertyKey (JBool b) = (if b then ''true'' else ''false'')"
| "ToPropertyKey (JNum i) = ToString_number i"
| "ToPropertyKey (JStr s) = s"

subsection \<open>Own properties of an object\<close>

text \<open>
  The property list of an object is kept in the order in which JavaScript enumerates own
  keys: the array-index keys in ascending numeric order, then the other keys in the order
  of their creation. \<^verbatim>\<open>CreateDataProperty\<close> replaces the value of an existing key where
  it stands and places a new key accordingly.
\<close>

definition own_keys :: "props \<Rightarrow> string list" where
  "own_keys ps = map fst ps"

fun insert_index :: "string \<Rightarrow> val \<Rightarrow> props \<Rightarrow> props" where
  "insert_index k v [] = [(k, v)]"
| "insert_index k v (p # ps) =
     (if is_array_index (fst p) \<and> nat_of_string (fst p) < nat_of_string k
      then p # insert_index k v ps
      else (k, v) # p # ps)"

definition CreateDataProperty :: "props \<Rightarrow> string \<Rightarrow> val \<Rightarrow> props" where
  "CreateDataProperty ps k v =
     (if k \<in> set (own_keys ps) then map (\<lambda>p. if fst p = k then (k, v) else p) ps
      else if is_array_index k then insert_index k v ps
      else ps @ [(k, v)])"

definition Get :: "props \<Rightarrow> string \<Rightarrow> val option" where
  "Get ps k = map_of ps k"

subsection \<open>Runtime functions\<close>

fun ToBoolean :: "val \<Rightarrow> bool" where
  "ToBoolean (Prim JUndefined) = False"
| "ToBoolean (Prim JNull) = False"
| "ToBoolean (Prim (JBool b)) = b"
| "ToBoolean (Prim (JNum i)) = (i \<noteq> 0)"
| "ToBoolean (Prim (JStr s)) = (s \<noteq> [])"
| "ToBoolean (Ref a) = True"

fun typeof :: "val \<Rightarrow> string" where
  "typeof (Prim JUndefined) = ''undefined''"
| "typeof (Prim JNull) = ''object''"
| "typeof (Prim (JBool b)) = ''boolean''"
| "typeof (Prim (JNum i)) = ''number''"
| "typeof (Prim (JStr s)) = ''string''"
| "typeof (Ref a) = ''object''"

fun Array_isArray :: "store \<Rightarrow> val \<Rightarrow> bool" where
  "Array_isArray h (Ref a) = (case h ! a of Arr xs \<Rightarrow> True | Obj ps \<Rightarrow> False)"
| "Array_isArray h (Prim p) = False"

text \<open>The elements of an array value; only called on a value that is an array.\<close>

fun elements :: "store \<Rightarrow> val \<Rightarrow> prim list" where
  "elements h (Ref a) = (case h ! a of Arr xs \<Rightarrow> xs | Obj ps \<Rightarrow> [])"
| "elements h (Prim p) = []"

text \<open>
  \<^verbatim>\<open>Object.keys\<close>: a \<^verbatim>\<open>TypeError\<close> on \<^verbatim>\<open>undefined\<close> and \<^verbatim>\<open>null\<close>; other primitives are
  wrapped, and only a string wrapper has own enumerable keys, its character positions.
\<close>

fun Object_keys :: "store \<Rightarrow> val \<Rightarrow> error + string list" where
  "Object_keys h (Prim JUndefined) = Inl TypeError"
| "Object_keys h (Prim JNull) = Inl TypeError"
| "Object_keys h (Prim (JBool b)) = Inr []"
| "Object_keys h (Prim (JNum i)) = Inr []"
| "Object_keys h (Prim (JStr s)) = Inr (map string_of_nat [0..<length s])"
| "Object_keys h (Ref a) =
     (case h ! a of
        Arr xs \<Rightarrow> Inr (map string_of_nat [0..<length xs])
      | Obj ps \<Rightarrow> Inr (own_keys ps))"

text \<open>
  \<^verbatim>\<open>Object.fromEntries\<close> over the pairs \<^verbatim>\<open>[key, value]\<close>, in order, into an object that
  starts empty. The pair arrays and the array holding them are temporaries that neither
  the argument nor the result refers to; they are not put in the store.
\<close>

definition Object_fromEntries :: "(prim \<times> prim) list \<Rightarrow> props" where
  "Object_fromEntries es =
     foldl (\<lambda>ps e. CreateDataProperty ps (ToPropertyKey (fst e)) (Prim (snd e))) [] es"

text \<open>A new object gets the next free address.\<close>

definition new_object :: "store \<Rightarrow> props \<Rightarrow> store \<times> val" where
  "new_object h ps = (h @ [Obj ps], Ref (length h))"

section \<open>The two copies of EnumLike\<close>

text \<open>\<^verbatim>\<open>lib/type-utils/enum-like/enum-like.ts\<close>\<close>

definition EnumLike :: "store \<Rightarrow> val \<Rightarrow> error + store \<times> val" where
  "EnumLike h param =
     (if \<not> ToBoolean param \<or> (Array_isArray h param \<and> length (elements h param) = 0)
      then Inr (new_object h [])
      else if Array_isArray h param
      then Inr (new_object h (Object_fromEntries (map (\<lambda>key. (key, key)) (elements h param))))
      else if typeof param = ''object''
      then (case Object_keys h param of
              Inl e \<Rightarrow> Inl e
            | Inr keys \<Rightarrow>
                Inr (new_object h (Object_fromEntries (map (\<lambda>key. (JStr key, JStr key)) keys))))
      else Inr (new_object h []))"

text \<open>\<^verbatim>\<open>lib/enum-like.ts\<close>\<close>

definition EnumLike_lib :: "store \<Rightarrow> val \<Rightarrow> error + store \<times> val" where
  "EnumLike_lib h param =
     (if Array_isArray h param
      then Inr (new_object h (Object_fromEntries (map (\<lambda>key. (key, key)) (elements h param))))
      else (case Object_keys h param of
              Inl e \<Rightarrow> Inl e
            | Inr keys \<Rightarrow>
                Inr (new_object h (Object_fromEntries (map (\<lambda>key. (JStr key, JStr key)) keys)))))"

text \<open>
  The two functions as a call reaches them, with the list of the arguments of the call.
  The signature of the implementation, \<^verbatim>\<open>(param: T | (keyof T)[])\<close>, binds \<^verbatim>\<open>param\<close> to the
  first argument, or to \<^verbatim>\<open>undefined\<close> when there is none; the body is the one above, and
  it uses neither \<^verbatim>\<open>arguments\<close> nor a rest parameter.
\<close>

definition EnumLike_call :: "store \<Rightarrow> val list \<Rightarrow> error + store \<times> val" where
  "EnumLike_call h arguments =
     (let param = (case arguments of [] \<Rightarrow> Prim JUndefined | a # rest \<Rightarrow> a) in
      if \<not> ToBoolean param \<or> (Array_isArray h param \<and> length (elements h param) = 0)
      then Inr (new_object h [])
      else if Array_isArray h param
      then Inr (new_object h (Object_fromEntries (map (\<lambda>key. (key, key)) (elements h param))))
      else if typeof param = ''object''
      then (case Object_keys h param of
              Inl e \<Rightarrow> Inl e
            | Inr keys \<Rightarrow>
                Inr (new_object h (Object_fromEntries (map (\<lambda>key. (JStr key, JStr key)) keys))))
      else Inr (new_object h []))"

definition EnumLike_lib_call :: "store \<Rightarrow> val list \<Rightarrow> error + store \<times> val" where
  "EnumLike_lib_call h arguments =
     (let param = (case arguments of [] \<Rightarrow> Prim JUndefined | a # rest \<Rightarrow> a) in
      if Array_isArray h param
      then Inr (new_object h (Object_fromEntries (map (\<lambda>key. (key, key)) (elements h param))))
      else (case Object_keys h param of
              Inl e \<Rightarrow> Inl e
            | Inr keys \<Rightarrow>
                Inr (new_object h (Object_fromEntries (map (\<lambda>key. (JStr key, JStr key)) keys)))))"

section \<open>Observations used to state the properties\<close>

text \<open>
  The order in which own keys are enumerated: an array index comes before every key that
  is not one, and before every array index of greater value; keys that are not array
  indices follow in the order of their creation.
\<close>

definition enum_before :: "string \<Rightarrow> string \<Rightarrow> bool" where
  "enum_before k k' \<longleftrightarrow>
     (if is_array_index k then is_array_index k' \<longrightarrow> nat_of_string k < nat_of_string k'
      else \<not> is_array_index k')"

definition enum_ordered :: "props \<Rightarrow> bool" where
  "enum_ordered ps \<longleftrightarrow> sorted_wrt enum_before (own_keys ps)"

text \<open>
  The object a call returns, read from the store it returns; two calls in a row, the
  second on the object the first returned.
\<close>

definition result_cell :: "error + store \<times> val \<Rightarrow> cell option" where
  "result_cell r =
     (case r of
        Inl e \<Rightarrow> None
      | Inr (h', v) \<Rightarrow>
          (case v of Prim p \<Rightarrow> None | Ref b \<Rightarrow> if b < length h' then Some (h' ! b) else None))"

definition result_keys :: "error + store \<times> val \<Rightarrow> string list option" where
  "result_keys r =
     (case result_cell r of
        Some (Obj ps) \<Rightarrow> Some (own_keys ps)
      | Some (Arr xs) \<Rightarrow> None
      | None \<Rightarrow> None)"

definition twice ::
  "(store \<Rightarrow> val \<Rightarrow> error + store \<times> val) \<Rightarrow> store \<Rightarrow> val \<Rightarrow> error + store \<times> val"
where
  "twice f h v = (case f h v of Inl e \<Rightarrow> Inl e | Inr (h1, v1) \<Rightarrow> f h1 v1)"

text \<open>The keys of a list in the order of their first occurrence.\<close>

definition first_occurrences :: "'a list \<Rightarrow> 'a list" where
  "first_occurrences xs = rev (remdups (rev xs))"

section \<open>Basic facts\<close>

lemma fromEntries_Nil [simp]: "Object_fromEntries [] = []"
  by (simp add: Object_fromEntries_def)

lemma array_index_inj:
  "is_array_index s \<Longrightarrow> is_array_index t \<Longrightarrow> nat_of_string s = nat_of_string t \<Longrightarrow> s = t"
  by (metis is_array_index_def)

lemma own_keys_simps [simp]:
  "own_keys [] = []" "own_keys (p # ps) = fst p # own_keys ps"
  "own_keys (ps @ qs) = own_keys ps @ own_keys qs"
  by (simp_all add: own_keys_def)

lemma own_keys_insert_index:
  "set (own_keys (insert_index k v ps)) = insert k (set (own_keys ps))"
  by (induction ps) auto

lemma own_keys_update:
  "own_keys (map (\<lambda>p. if fst p = k then (k, v) else p) ps) = own_keys ps"
  by (induction ps) auto

lemma set_own_keys_Create:
  "set (own_keys (CreateDataProperty ps k v)) = insert k (set (own_keys ps))"
  by (simp add: CreateDataProperty_def own_keys_update own_keys_insert_index insert_absorb)

lemma distinct_insert_index:
  "k \<notin> set (own_keys ps) \<Longrightarrow> distinct (own_keys ps) \<Longrightarrow> distinct (own_keys (insert_index k v ps))"
  by (induction ps) (auto simp: own_keys_insert_index)

lemma distinct_Create:
  "distinct (own_keys ps) \<Longrightarrow> distinct (own_keys (CreateDataProperty ps k v))"
  by (simp add: CreateDataProperty_def own_keys_update distinct_insert_index)

lemma length_insert_index [simp]: "length (insert_index k v ps) = Suc (length ps)"
  by (induction ps) auto

lemma length_Create:
  "length (CreateDataProperty ps k v) = (if k \<in> set (own_keys ps) then length ps else Suc (length ps))"
  by (simp add: CreateDataProperty_def)

lemma map_of_insert_index:
  "map_of (insert_index k v ps) k' = (if k' = k then Some v else map_of ps k')"
  by (induction ps) auto

lemma map_of_update:
  "map_of (map (\<lambda>p. if fst p = k then (k, v) else p) ps) k' =
     (if k' = k \<and> k \<in> set (own_keys ps) then Some v else map_of ps k')"
  by (induction ps) auto

lemma map_of_None_own_keys: "k \<notin> set (own_keys ps) \<Longrightarrow> map_of ps k = None"
  by (simp add: own_keys_def map_of_eq_None_iff)

lemma Get_Create:
  "Get (CreateDataProperty ps k v) k' = (if k' = k then Some v else Get ps k')"
  by (simp add: Get_def CreateDataProperty_def map_of_insert_index map_of_update
      map_add_def map_of_None_own_keys split: option.splits)

lemma fromEntries_snoc:
  "Object_fromEntries (es @ [e]) =
     CreateDataProperty (Object_fromEntries es) (ToPropertyKey (fst e)) (Prim (snd e))"
  by (simp add: Object_fromEntries_def)

lemma set_own_keys_fromEntries:
  "set (own_keys (Object_fromEntries es)) = (\<lambda>e. ToPropertyKey (fst e)) ` set es"
  by (induction es rule: rev_induct) (auto simp: fromEntries_snoc set_own_keys_Create)

lemma distinct_own_keys_fromEntries: "distinct (own_keys (Object_fromEntries es))"
  by (induction es rule: rev_induct) (auto simp: fromEntries_snoc distinct_Create)

lemma enum_ordered_insert_index:
  "is_array_index k \<Longrightarrow> k \<notin> set (own_keys ps) \<Longrightarrow> enum_ordered ps \<Longrightarrow> enum_ordered (insert_index k v ps)"
  unfolding enum_ordered_def
proof (induction ps)
  case Nil
  then show ?case by simp
next
  case (Cons p ps)
  show ?case
  proof (cases "is_array_index (fst p) \<and> nat_of_string (fst p) < nat_of_string k")
    case True
    then have "enum_before (fst p) k" by (simp add: enum_before_def)
    with Cons True show ?thesis
      by (auto simp: own_keys_insert_index)
  next
    case False
    have kp: "enum_before k (fst p)"
      using False Cons.prems(1,2) array_index_inj [of k "fst p"]
      by (auto simp: enum_before_def not_less le_less)
    have "\<forall>x\<in>set (own_keys ps). enum_before k x"
    proof
      fix x assume "x \<in> set (own_keys ps)"
      with Cons.prems(3) have px: "enum_before (fst p) x" by auto
      with kp Cons.prems(1) show "enum_before k x"
        by (auto simp: enum_before_def split: if_splits)
    qed
    with kp Cons.prems(3) False show ?thesis by auto
  qed
qed

lemma enum_ordered_Create:
  "enum_ordered ps \<Longrightarrow> enum_ordered (CreateDataProperty ps k v)"
proof -
  assume o: "enum_ordered ps"
  have "\<not> is_array_index k \<Longrightarrow> sorted_wrt enum_before (own_keys ps @ [k])"
    using o by (auto simp: enum_ordered_def sorted_wrt_append enum_before_def)
  then show ?thesis
    using o enum_ordered_insert_index [of k ps v]
    by (auto simp: CreateDataProperty_def own_keys_update enum_ordered_def)
qed

lemma enum_ordered_fromEntries: "enum_ordered (Object_fromEntries es)"
proof (induction es rule: rev_induct)
  case Nil
  show ?case by (simp add: enum_ordered_def)
next
  case (snoc e es)
  then show ?case by (simp add: fromEntries_snoc enum_ordered_Create)
qed

lemma length_fromEntries:
  "distinct (map (\<lambda>e. ToPropertyKey (fst e)) es) \<Longrightarrow> length (Object_fromEntries es) = length es"
  by (induction es rule: rev_induct)
    (auto simp: fromEntries_snoc length_Create set_own_keys_fromEntries)

text \<open>Last write wins: the value at a key is the value of the last entry with that key.\<close>

lemma Get_fromEntries:
  "Get (Object_fromEntries es) k =
     map_of (rev (map (\<lambda>e. (ToPropertyKey (fst e), Prim (snd e))) es)) k"
proof (induction es rule: rev_induct)
  case Nil
  show ?case by (simp add: Get_def)
next
  case (snoc e es)
  have "Get (Object_fromEntries (es @ [e])) k =
      (if k = ToPropertyKey (fst e) then Some (Prim (snd e)) else Get (Object_fromEntries es) k)"
    by (simp add: fromEntries_snoc Get_Create)
  with snoc show ?case by simp
qed

lemma EnumLike_array:
  "h ! a = Arr ks \<Longrightarrow>
     EnumLike h (Ref a) = Inr (new_object h (Object_fromEntries (map (\<lambda>key. (key, key)) ks)))"
  by (simp add: EnumLike_def)

lemma EnumLike_lib_array:
  "h ! a = Arr ks \<Longrightarrow>
     EnumLike_lib h (Ref a) = Inr (new_object h (Object_fromEntries (map (\<lambda>key. (key, key)) ks)))"
  by (simp add: EnumLike_lib_def)

lemma EnumLike_object:
  "h ! a = Obj m \<Longrightarrow>
     EnumLike h (Ref a) =
       Inr (new_object h (Object_fromEntries (map (\<lambda>key. (JStr key, JStr key)) (own_keys m))))"
  by (simp add: EnumLike_def)

lemma EnumLike_lib_object:
  "h ! a = Obj m \<Longrightarrow>
     EnumLike_lib h (Ref a) =
       Inr (new_object h (Object_fromEntries (map (\<lambda>key. (JStr key, JStr key)) (own_keys m))))"
  by (simp add: EnumLike_lib_def)

text \<open>The equations that evaluate a call on a concrete argument.\<close>

lemmas eval_simps =
  EnumLike_def EnumLike_lib_def new_object_def Object_fromEntries_def CreateDataProperty_def
  is_array_index_def nat_of_string_def digit_val_def string_of_nat.simps digit_char_def

lemma set_Create_subset: "set (CreateDataProperty ps k v) \<subseteq> insert (k, v) (set ps)"
proof -
  have "set (insert_index k v ps) = insert (k, v) (set ps)"
    by (induction ps) auto
  then show ?thesis by (auto simp: CreateDataProperty_def)
qed

lemma set_fromEntries_subset:
  "set (Object_fromEntries es) \<subseteq> (\<lambda>e. (ToPropertyKey (fst e), Prim (snd e))) ` set es"
proof (induction es rule: rev_induct)
  case Nil
  show ?case by simp
next
  case (snoc e es)
  show ?case
    using snoc set_Create_subset [of "Object_fromEntries es" "ToPropertyKey (fst e)" "Prim (snd e)"]
    by (auto simp: fromEntries_snoc)
qed

section \<open>Sequences of distinct keys\<close>

text \<open>
  Claim C1. Let the argument be a non-empty array \<open>ks\<close> whose elements are distinct as
  property keys (its numbers being safe integers). Both copies of \<^verbatim>\<open>EnumLike\<close> return a new object with exactly
  \<open>length ks\<close> own properties, and reading the property named by an element \<open>k\<close> gives
  \<open>k\<close> itself.
\<close>

theorem enum_like_distinct_keys:
  assumes "a < length h" and "h ! a = Arr ks" and "ks \<noteq> []"
    and "distinct (map ToPropertyKey ks)" and "\<forall>k\<in>set ks. safe_key k"
  shows "\<exists>ps. EnumLike h (Ref a) = Inr (h @ [Obj ps], Ref (length h))
           \<and> EnumLike_lib h (Ref a) = Inr (h @ [Obj ps], Ref (length h))
           \<and> length ps = length ks
           \<and> (\<forall>k\<in>set ks. Get ps (ToPropertyKey k) = Some (Prim k))"
proof -
  let ?es = "map (\<lambda>key. (key, key)) ks"
  let ?ps = "Object_fromEntries ?es"
  have len: "length ?ps = length ks"
    using length_fromEntries [of ?es] assms(4) by (simp add: comp_def)
  have get: "Get ?ps (ToPropertyKey k) = Some (Prim k)" if "k \<in> set ks" for k
  proof -
    let ?al = "rev (map (\<lambda>e. (ToPropertyKey (fst e), Prim (snd e))) ?es)"
    have "distinct (map fst ?al)"
      using assms(4) by (simp add: comp_def rev_map [symmetric])
    moreover have "(ToPropertyKey k, Prim k) \<in> set ?al"
      using that by auto
    ultimately have "map_of ?al (ToPropertyKey k) = Some (Prim k)"
      by (rule map_of_is_SomeI)
    then show ?thesis by (simp only: Get_fromEntries)
  qed
  show ?thesis
    using EnumLike_array [OF assms(2)] EnumLike_lib_array [OF assms(2)] len get
    by (auto simp: new_object_def)
qed

theorem enum_like_distinct_keys_witness:
  "\<exists>ps. EnumLike [Arr [JStr ''pending'', JStr ''completed'', JStr ''failed'']] (Ref 0)
          = Inr ([Arr [JStr ''pending'', JStr ''completed'', JStr ''failed''], Obj ps], Ref 1)
       \<and> EnumLike_lib [Arr [JStr ''pending'', JStr ''completed'', JStr ''failed'']] (Ref 0)
          = Inr ([Arr [JStr ''pending'', JStr ''completed'', JStr ''failed''], Obj ps], Ref 1)
       \<and> length ps = 3
       \<and> Get ps ''pending'' = Some (Prim (JStr ''pending''))
       \<and> Get ps ''completed'' = Some (Prim (JStr ''completed''))
       \<and> Get ps ''failed'' = Some (Prim (JStr ''failed''))"
  using enum_like_distinct_keys
    [of 0 "[Arr [JStr ''pending'', JStr ''completed'', JStr ''failed'']]"
        "[JStr ''pending'', JStr ''completed'', JStr ''failed'']"]
  by (simp add: numeral_3_eq_3)

section \<open>Object arguments\<close>

text \<open>
  Claim C2. Let the argument be an object with property list \<open>m\<close>. Both copies return a new
  object whose set of own keys is the set of own keys of \<open>m\<close> and whose value at every key
  is that key, as a string. The result is the same for every other object \<open>m'\<close> with the
  same keys, whatever its values are.
\<close>

theorem enum_like_object_keys:
  assumes "a < length h" and "h ! a = Obj m"
  shows "\<exists>ps. EnumLike h (Ref a) = Inr (h @ [Obj ps], Ref (length h))
           \<and> EnumLike_lib h (Ref a) = Inr (h @ [Obj ps], Ref (length h))
           \<and> set (own_keys ps) = set (own_keys m)
           \<and> (\<forall>(k, v)\<in>set ps. v = Prim (JStr k))
           \<and> (\<forall>m'. own_keys m' = own_keys m \<longrightarrow>
                 EnumLike (h[a := Obj m']) (Ref a) = Inr (h[a := Obj m'] @ [Obj ps], Ref (length h))
               \<and> EnumLike_lib (h[a := Obj m']) (Ref a) = Inr (h[a := Obj m'] @ [Obj ps], Ref (length h)))"
proof -
  let ?es = "map (\<lambda>key. (JStr key, JStr key)) (own_keys m)"
  let ?ps = "Object_fromEntries ?es"
  have keys: "set (own_keys ?ps) = set (own_keys m)"
    by (simp add: set_own_keys_fromEntries image_image)
  have vals: "\<forall>(k, v)\<in>set ?ps. v = Prim (JStr k)"
    using set_fromEntries_subset [of ?es] by auto
  have other: "EnumLike (h[a := Obj m']) (Ref a) = Inr (h[a := Obj m'] @ [Obj ?ps], Ref (length h))
      \<and> EnumLike_lib (h[a := Obj m']) (Ref a) = Inr (h[a := Obj m'] @ [Obj ?ps], Ref (length h))"
    if "own_keys m' = own_keys m" for m'
  proof -
    have "h[a := Obj m'] ! a = Obj m'" using assms(1) by simp
    then show ?thesis
      using that EnumLike_object [of "h[a := Obj m']" a m'] EnumLike_lib_object [of "h[a := Obj m']" a m']
      by (simp add: new_object_def)
  qed
  show ?thesis
    using EnumLike_object [OF assms(2)] EnumLike_lib_object [OF assms(2)] keys vals other
    by (intro exI [of _ ?ps]) (simp add: new_object_def)
qed

theorem enum_like_object_keys_witness:
  "\<exists>ps. EnumLike [Obj [(''a'', Prim (JNum 1)), (''b'', Ref 0)]] (Ref 0)
          = Inr ([Obj [(''a'', Prim (JNum 1)), (''b'', Ref 0)], Obj ps], Ref 1)
       \<and> EnumLike_lib [Obj [(''a'', Prim (JNum 1)), (''b'', Ref 0)]] (Ref 0)
          = Inr ([Obj [(''a'', Prim (JNum 1)), (''b'', Ref 0)], Obj ps], Ref 1)
       \<and> set (own_keys ps) = {''a'', ''b''}
       \<and> (\<forall>(k, v)\<in>set ps. v = Prim (JStr k))
       \<and> EnumLike [Obj [(''a'', Prim JNull), (''b'', Prim (JBool True))]] (Ref 0)
          = Inr ([Obj [(''a'', Prim JNull), (''b'', Prim (JBool True))], Obj ps], Ref 1)"
proof -
  obtain ps where ps: "EnumLike [Obj [(''a'', Prim (JNum 1)), (''b'', Ref 0)]] (Ref 0)
          = Inr ([Obj [(''a'', Prim (JNum 1)), (''b'', Ref 0)]] @ [Obj ps], Ref (length [Obj [(''a'', Prim (JNum 1)), (''b'', Ref 0)]]))"
      "EnumLike_lib [Obj [(''a'', Prim (JNum 1)), (''b'', Ref 0)]] (Ref 0)
          = Inr ([Obj [(''a'', Prim (JNum 1)), (''b'', Ref 0)]] @ [Obj ps], Ref (length [Obj [(''a'', Prim (JNum 1)), (''b'', Ref 0)]]))"
      "set (own_keys ps) = set (own_keys [(''a'', Prim (JNum 1)), (''b'', Ref 0)])"
      "\<forall>(k, v)\<in>set ps. v = Prim (JStr k)"
      "\<forall>m'. own_keys m' = own_keys [(''a'', Prim (JNum 1)), (''b'', Ref 0)] \<longrightarrow>
                 EnumLike ([Obj [(''a'', Prim (JNum 1)), (''b'', Ref 0)]][0 := Obj m']) (Ref 0)
                   = Inr ([Obj [(''a'', Prim (JNum 1)), (''b'', Ref 0)]][0 := Obj m'] @ [Obj ps], Ref (length [Obj [(''a'', Prim (JNum 1)), (''b'', Ref 0)]]))
               \<and> EnumLike_lib ([Obj [(''a'', Prim (JNum 1)), (''b'', Ref 0)]][0 := Obj m']) (Ref 0)
                   = Inr ([Obj [(''a'', Prim (JNum 1)), (''b'', Ref 0)]][0 := Obj m'] @ [Obj ps], Ref (length [Obj [(''a'', Prim (JNum 1)), (''b'', Ref 0)]]))"
    using enum_like_object_keys [of 0 "[Obj [(''a'', Prim (JNum 1)), (''b'', Ref 0)]]" "[(''a'', Prim (JNum 1)), (''b'', Ref 0)]"]
    by auto
  from ps(5) have "EnumLike [Obj [(''a'', Prim JNull), (''b'', Prim (JBool True))]] (Ref 0)
          = Inr ([Obj [(''a'', Prim JNull), (''b'', Prim (JBool True))], Obj ps], Ref 1)"
    by (auto dest: spec [of _ "[(''a'', Prim JNull), (''b'', Prim (JBool True))]"])
  with ps(1-4) show ?thesis by (intro exI [of _ ps]) simp
qed


section \<open>Empty arguments\<close>

text \<open>
  Claim C6. On an empty array and on an empty object, both copies return a new empty
  object and raise nothing.
\<close>

theorem enum_like_empty_inputs:
  assumes "a < length h" and "h ! a = Arr [] \<or> h ! a = Obj []"
  shows "EnumLike h (Ref a) = Inr (h @ [Obj []], Ref (length h))
       \<and> EnumLike_lib h (Ref a) = Inr (h @ [Obj []], Ref (length h))"
  using assms(2) by (auto simp: EnumLike_def EnumLike_lib_def new_object_def)

theorem enum_like_empty_inputs_witness:
  "EnumLike [Arr []] (Ref 0) = Inr ([Arr [], Obj []], Ref 1)
   \<and> EnumLike_lib [Arr []] (Ref 0) = Inr ([Arr [], Obj []], Ref 1)
   \<and> EnumLike [Obj []] (Ref 0) = Inr ([Obj [], Obj []], Ref 1)
   \<and> EnumLike_lib [Obj []] (Ref 0) = Inr ([Obj [], Obj []], Ref 1)"
  using enum_like_empty_inputs [of 0 "[Arr []]"] enum_like_empty_inputs [of 0 "[Obj []]"]
  by simp

section \<open>Primitive arguments\<close>

text \<open>
  The copy in \<^verbatim>\<open>type-utils\<close> returns a new empty object for every primitive: a falsy one
  is caught by the first test, a truthy one is neither an array nor of type
  \<^verbatim>\<open>'object'\<close>.
\<close>

lemma EnumLike_primitive: "EnumLike h (Prim p) = Inr (h @ [Obj []], Ref (length h))"
  by (cases p) (simp_all add: EnumLike_def new_object_def)

text \<open>
  Claim C3. On \<^verbatim>\<open>null\<close>, on \<^verbatim>\<open>42\<close> and on every other primitive \<^verbatim>\<open>EnumLike\<close> is to
  return an empty object and raise nothing. The copy in \<^verbatim>\<open>lib/enum-like.ts\<close> has no
  test for a falsy parameter nor for the type of the parameter: on \<^verbatim>\<open>null\<close> its call of
  \<^verbatim>\<open>Object.keys\<close> raises a \<^verbatim>\<open>TypeError\<close>, and on the string \<^verbatim>\<open>'Red'\<close>, an argument its
  first overload accepts, it returns \<^verbatim>\<open>{0: '0', 1: '1', 2: '2'}\<close>. On \<^verbatim>\<open>42\<close> it does
  return an empty object.
\<close>

theorem enum_like_lib_primitives:
  "EnumLike_lib h (Prim JNull) = Inl TypeError
   \<and> EnumLike_lib h (Prim (JNum 42)) = Inr (h @ [Obj []], Ref (length h))
   \<and> EnumLike_lib h (Prim (JStr ''Red''))
       = Inr (h @ [Obj [(''0'', Prim (JStr ''0'')), (''1'', Prim (JStr ''1'')),
                        (''2'', Prim (JStr ''2''))]], Ref (length h))"
  by (simp add: eval_simps upt_rec)

theorem enum_like_lib_primitives_witness:
  "EnumLike_lib [] (Prim JNull) = Inl TypeError
   \<and> EnumLike_lib [] (Prim (JNum 42)) = Inr ([Obj []], Ref 0)
   \<and> EnumLike_lib [] (Prim (JStr ''Red''))
       = Inr ([Obj [(''0'', Prim (JStr ''0'')), (''1'', Prim (JStr ''1'')),
                    (''2'', Prim (JStr ''2''))]], Ref 0)"
  using enum_like_lib_primitives [of "[]"] by simp

section \<open>The two copies compared\<close>

text \<open>
  The two copies return the same result exactly on the arguments other than
  \<^verbatim>\<open>undefined\<close>, \<^verbatim>\<open>null\<close> and the non-empty strings.
\<close>

lemma fromEntries_not_Nil: "es \<noteq> [] \<Longrightarrow> Object_fromEntries es \<noteq> []"
  using set_own_keys_fromEntries [of es] by (cases "Object_fromEntries es") auto

lemma EnumLike_copies_agree:
  "EnumLike h v = EnumLike_lib h v \<longleftrightarrow>
     v \<noteq> Prim JUndefined \<and> v \<noteq> Prim JNull \<and> (\<forall>s. v = Prim (JStr s) \<longrightarrow> s = [])"
proof (cases v)
  case (Ref a)
  then show ?thesis
    by (cases "h ! a") (simp_all add: EnumLike_def EnumLike_lib_def)
next
  case (Prim p)
  show ?thesis
  proof (cases p)
    case (JStr s)
    show ?thesis
    proof (cases "s = []")
      case True
      then show ?thesis
        using Prim JStr by (simp add: EnumLike_primitive EnumLike_lib_def new_object_def)
    next
      case False
      let ?es = "map (\<lambda>key. (JStr key, JStr key)) (map string_of_nat [0..<length s])"
      have "Object_fromEntries ?es \<noteq> []"
        using False by (intro fromEntries_not_Nil) simp
      moreover have "EnumLike_lib h v = Inr (h @ [Obj (Object_fromEntries ?es)], Ref (length h))"
        using Prim JStr by (simp add: EnumLike_lib_def new_object_def)
      ultimately show ?thesis
        using False Prim JStr by (simp add: EnumLike_primitive)
    qed
  qed (simp_all add: Prim EnumLike_primitive EnumLike_lib_def new_object_def)
qed

text \<open>
  Claim C8. The two copies are to compute the same result, or both fail, on every
  argument. On \<^verbatim>\<open>null\<close> the copy in \<^verbatim>\<open>type-utils\<close> returns a new empty object and the
  copy in \<^verbatim>\<open>lib/enum-like.ts\<close> raises a \<^verbatim>\<open>TypeError\<close>; on the string \<^verbatim>\<open>'Red'\<close> their
  results differ as well.
\<close>

theorem enum_like_copies_differ:
  "EnumLike h (Prim JNull) = Inr (h @ [Obj []], Ref (length h))
   \<and> EnumLike_lib h (Prim JNull) = Inl TypeError
   \<and> EnumLike h (Prim JNull) \<noteq> EnumLike_lib h (Prim JNull)
   \<and> EnumLike h (Prim (JStr ''Red'')) \<noteq> EnumLike_lib h (Prim (JStr ''Red''))"
  by (simp add: EnumLike_copies_agree) (simp add: EnumLike_def EnumLike_lib_def new_object_def)

theorem enum_like_copies_differ_witness:
  "EnumLike [] (Prim JNull) = Inr ([Obj []], Ref 0)
   \<and> EnumLike_lib [] (Prim JNull) = Inl TypeError
   \<and> EnumLike [] (Prim JNull) \<noteq> EnumLike_lib [] (Prim JNull)
   \<and> EnumLike [] (Prim (JStr ''Red'')) \<noteq> EnumLike_lib [] (Prim (JStr ''Red''))"
  using enum_like_copies_differ [of "[]"] by simp

section \<open>Calls with several arguments\<close>

text \<open>A call with one argument is the function of its parameter.\<close>

lemma EnumLike_call_one:
  "EnumLike_call h [x] = EnumLike h x" "EnumLike_lib_call h [x] = EnumLike_lib h x"
  by (simp_all add: EnumLike_call_def EnumLike_lib_call_def EnumLike_def EnumLike_lib_def)

text \<open>
  Claim C10. A call with the arguments \<open>x # rest\<close> gives the result of the call with \<open>x\<close>
  alone, in both copies: the further arguments are never read. So the call
  \<^verbatim>\<open>EnumLike('Red', 'Green', 'Blue')\<close> of the doc comment and of the variadic overload gives
  what \<^verbatim>\<open>EnumLike('Red')\<close> gives, in which neither \<^verbatim>\<open>'Green'\<close> nor \<^verbatim>\<open>'Blue'\<close> occurs: the
  empty object in the copy in \<^verbatim>\<open>type-utils\<close>, the character positions of \<^verbatim>\<open>'Red'\<close> in the
  copy in \<^verbatim>\<open>lib/enum-like.ts\<close>.
\<close>

theorem enum_like_first_argument_only:
  "EnumLike_call h (x # rest) = EnumLike_call h [x]
   \<and> EnumLike_lib_call h (x # rest) = EnumLike_lib_call h [x]
   \<and> EnumLike_call h [Prim (JStr ''Red''), Prim (JStr ''Green''), Prim (JStr ''Blue'')]
       = Inr (h @ [Obj []], Ref (length h))
   \<and> EnumLike_lib_call h [Prim (JStr ''Red''), Prim (JStr ''Green''), Prim (JStr ''Blue'')]
       = Inr (h @ [Obj [(''0'', Prim (JStr ''0'')), (''1'', Prim (JStr ''1'')),
                        (''2'', Prim (JStr ''2''))]], Ref (length h))"
proof (intro conjI)
  show "EnumLike_call h (x # rest) = EnumLike_call h [x]"
    by (simp add: EnumLike_call_def)
  show "EnumLike_lib_call h (x # rest) = EnumLike_lib_call h [x]"
    by (simp add: EnumLike_lib_call_def)
  show "EnumLike_call h [Prim (JStr ''Red''), Prim (JStr ''Green''), Prim (JStr ''Blue'')]
      = Inr (h @ [Obj []], Ref (length h))"
    by (simp add: EnumLike_call_def new_object_def)
  show "EnumLike_lib_call h [Prim (JStr ''Red''), Prim (JStr ''Green''), Prim (JStr ''Blue'')]
      = Inr (h @ [Obj [(''0'', Prim (JStr ''0'')), (''1'', Prim (JStr ''1'')),
                       (''2'', Prim (JStr ''2''))]], Ref (length h))"
    by (simp add: EnumLike_lib_call_def eval_simps upt_rec)
qed

theorem enum_like_first_argument_only_witness:
  "EnumLike_call [] [Ref 0, Prim (JStr ''Green'')] = EnumLike_call [] [Ref 0]
   \<and> EnumLike_lib_call [] [Ref 0, Prim (JStr ''Green'')] = EnumLike_lib_call [] [Ref 0]
   \<and> EnumLike_call [] [Prim (JStr ''Red''), Prim (JStr ''Green''), Prim (JStr ''Blue'')]
       = Inr ([Obj []], Ref 0)
   \<and> EnumLike_lib_call [] [Prim (JStr ''Red''), Prim (JStr ''Green''), Prim (JStr ''Blue'')]
       = Inr ([Obj [(''0'', Prim (JStr ''0'')), (''1'', Prim (JStr ''1'')),
                    (''2'', Prim (JStr ''2''))]], Ref 0)"
  using enum_like_first_argument_only [of "[]" "Ref 0" "[Prim (JStr ''Green'')]"]
  by simp

section \<open>The argument is left as it was\<close>

text \<open>
  Claim C7. For an array or object argument at address \<open>a\<close>, both copies return a store
  that extends the given one: every cell that was there, the argument's among them, has
  the contents and the order it had, and the object returned is at a new address,
  different from \<open>a\<close>.
\<close>

theorem enum_like_leaves_input_unchanged:
  assumes "a < length h"
  shows "\<exists>h' r. EnumLike h (Ref a) = Inr (h', Ref r)
           \<and> EnumLike_lib h (Ref a) = Inr (h', Ref r)
           \<and> take (length h) h' = h \<and> h' ! a = h ! a
           \<and> (\<forall>b<length h. h' ! b = h ! b)
           \<and> length h \<le> r \<and> r < length h' \<and> r \<noteq> a
           \<and> (\<exists>ps. h' ! r = Obj ps)"
proof (cases "h ! a")
  case (Arr ks)
  show ?thesis
    using assms EnumLike_array [OF Arr] EnumLike_lib_array [OF Arr]
    by (auto simp: new_object_def nth_append)
next
  case (Obj m)
  show ?thesis
    using assms EnumLike_object [OF Obj] EnumLike_lib_object [OF Obj]
    by (auto simp: new_object_def nth_append)
qed

theorem enum_like_leaves_input_unchanged_witness:
  "\<exists>h' r. EnumLike [Arr [JStr ''a'', JStr ''b'']] (Ref 0) = Inr (h', Ref r)
           \<and> EnumLike_lib [Arr [JStr ''a'', JStr ''b'']] (Ref 0) = Inr (h', Ref r)
           \<and> take 1 h' = [Arr [JStr ''a'', JStr ''b'']] \<and> h' ! 0 = Arr [JStr ''a'', JStr ''b'']
           \<and> 1 \<le> r \<and> r < length h' \<and> r \<noteq> 0 \<and> (\<exists>ps. h' ! r = Obj ps)"
  using enum_like_leaves_input_unchanged [of 0 "[Arr [JStr ''a'', JStr ''b'']]"]
  by auto

section \<open>Last write wins\<close>

lemma Get_last_occurrence:
  assumes "ks = xs @ x # ys" and "ToPropertyKey x \<notin> ToPropertyKey ` set ys"
  shows "Get (Object_fromEntries (map (\<lambda>key. (key, key)) ks)) (ToPropertyKey x) = Some (Prim x)"
proof -
  have "map_of (rev (map (\<lambda>key. (ToPropertyKey key, Prim key)) ys)) (ToPropertyKey x) = None"
    using assms(2) by (auto simp: map_of_eq_None_iff image_iff)
  then show ?thesis
    by (simp add: Get_fromEntries assms(1) comp_def map_add_def)
qed

text \<open>
  Claim C5. For every array argument \<open>ks\<close> (its numbers being safe integers), with or
  without repeated keys, both copies
  return an object that has each key of \<open>ks\<close> once, and the value at a key is the element
  of its last occurrence: an element \<open>x\<close> whose key no later element has is the value at
  that key. In particular \<^verbatim>\<open>['a','a','b']\<close> and \<^verbatim>\<open>['a','b']\<close> both give the object
  \<^verbatim>\<open>{a: 'a', b: 'b'}\<close>.
\<close>

theorem enum_like_duplicate_keys:
  assumes "a < length h" and "h ! a = Arr ks" and "\<forall>k\<in>set ks. safe_key k"
  shows "(\<exists>ps. EnumLike h (Ref a) = Inr (h @ [Obj ps], Ref (length h))
            \<and> EnumLike_lib h (Ref a) = Inr (h @ [Obj ps], Ref (length h))
            \<and> distinct (own_keys ps)
            \<and> set (own_keys ps) = ToPropertyKey ` set ks
            \<and> (\<forall>xs x ys. ks = xs @ x # ys \<and> ToPropertyKey x \<notin> ToPropertyKey ` set ys
                  \<longrightarrow> Get ps (ToPropertyKey x) = Some (Prim x)))
       \<and> result_cell (EnumLike [Arr [JStr ''a'', JStr ''a'', JStr ''b'']] (Ref 0))
           = Some (Obj [(''a'', Prim (JStr ''a'')), (''b'', Prim (JStr ''b''))])
       \<and> result_cell (EnumLike [Arr [JStr ''a'', JStr ''b'']] (Ref 0))
           = Some (Obj [(''a'', Prim (JStr ''a'')), (''b'', Prim (JStr ''b''))])
       \<and> result_cell (EnumLike_lib [Arr [JStr ''a'', JStr ''a'', JStr ''b'']] (Ref 0))
           = Some (Obj [(''a'', Prim (JStr ''a'')), (''b'', Prim (JStr ''b''))])
       \<and> result_cell (EnumLike_lib [Arr [JStr ''a'', JStr ''b'']] (Ref 0))
           = Some (Obj [(''a'', Prim (JStr ''a'')), (''b'', Prim (JStr ''b''))])"
proof -
  let ?ps = "Object_fromEntries (map (\<lambda>key. (key, key)) ks)"
  have "set (own_keys ?ps) = ToPropertyKey ` set ks"
    by (simp add: set_own_keys_fromEntries image_image)
  then have general: "\<exists>ps. EnumLike h (Ref a) = Inr (h @ [Obj ps], Ref (length h))
            \<and> EnumLike_lib h (Ref a) = Inr (h @ [Obj ps], Ref (length h))
            \<and> distinct (own_keys ps)
            \<and> set (own_keys ps) = ToPropertyKey ` set ks
            \<and> (\<forall>xs x ys. ks = xs @ x # ys \<and> ToPropertyKey x \<notin> ToPropertyKey ` set ys
                  \<longrightarrow> Get ps (ToPropertyKey x) = Some (Prim x))"
    using EnumLike_array [OF assms(2)] EnumLike_lib_array [OF assms(2)]
      distinct_own_keys_fromEntries [of "map (\<lambda>key. (key, key)) ks"] Get_last_occurrence [of ks]
    by (intro exI [of _ ?ps]) (simp add: new_object_def)
  have example:
    "result_cell (EnumLike [Arr [JStr ''a'', JStr ''a'', JStr ''b'']] (Ref 0))
           = Some (Obj [(''a'', Prim (JStr ''a'')), (''b'', Prim (JStr ''b''))])"
    "result_cell (EnumLike [Arr [JStr ''a'', JStr ''b'']] (Ref 0))
           = Some (Obj [(''a'', Prim (JStr ''a'')), (''b'', Prim (JStr ''b''))])"
    "result_cell (EnumLike_lib [Arr [JStr ''a'', JStr ''a'', JStr ''b'']] (Ref 0))
           = Some (Obj [(''a'', Prim (JStr ''a'')), (''b'', Prim (JStr ''b''))])"
    "result_cell (EnumLike_lib [Arr [JStr ''a'', JStr ''b'']] (Ref 0))
           = Some (Obj [(''a'', Prim (JStr ''a'')), (''b'', Prim (JStr ''b''))])"
    by (simp_all add: eval_simps result_cell_def)
  from general example show ?thesis by blast
qed

theorem enum_like_duplicate_keys_witness:
  "\<exists>ps. EnumLike [Arr [JNum 1, JStr ''x'', JStr ''1'']] (Ref 0)
           = Inr ([Arr [JNum 1, JStr ''x'', JStr ''1''], Obj ps], Ref 1)
       \<and> EnumLike_lib [Arr [JNum 1, JStr ''x'', JStr ''1'']] (Ref 0)
           = Inr ([Arr [JNum 1, JStr ''x'', JStr ''1''], Obj ps], Ref 1)
       \<and> distinct (own_keys ps) \<and> set (own_keys ps) = {''1'', ''x''}
       \<and> Get ps ''1'' = Some (Prim (JStr ''1''))
       \<and> Get ps ''x'' = Some (Prim (JStr ''x''))"
proof -
  let ?ks = "[JNum 1, JStr ''x'', JStr ''1'']"
  have one: "ToPropertyKey (JNum 1) = ''1''"
    by (simp add: ToString_number_def string_of_nat.simps digit_char_def)
  obtain ps where ps:
    "EnumLike [Arr ?ks] (Ref 0) = Inr ([Arr ?ks] @ [Obj ps], Ref (length [Arr ?ks]))"
    "EnumLike_lib [Arr ?ks] (Ref 0) = Inr ([Arr ?ks] @ [Obj ps], Ref (length [Arr ?ks]))"
    "distinct (own_keys ps)" "set (own_keys ps) = ToPropertyKey ` set ?ks"
    "\<forall>xs x ys. ?ks = xs @ x # ys \<and> ToPropertyKey x \<notin> ToPropertyKey ` set ys
        \<longrightarrow> Get ps (ToPropertyKey x) = Some (Prim x)"
    using enum_like_duplicate_keys [of 0 "[Arr ?ks]" ?ks] by (auto simp: safe_integer_def)
  have "Get ps (ToPropertyKey (JStr ''1'')) = Some (Prim (JStr ''1''))"
    using ps(5) [rule_format, of "[JNum 1, JStr ''x'']" "JStr ''1''" "[]"] by simp
  moreover have "Get ps (ToPropertyKey (JStr ''x'')) = Some (Prim (JStr ''x''))"
    using ps(5) [rule_format, of "[JNum 1]" "JStr ''x''" "[JStr ''1'']"] by simp
  ultimately show ?thesis
    using ps(1-4) one by (intro exI [of _ ps]) auto
qed

section \<open>The order of the keys\<close>

lemma first_occurrences_snoc:
  "first_occurrences (xs @ [x]) =
     (if x \<in> set xs then first_occurrences xs else first_occurrences xs @ [x])"
  by (simp add: first_occurrences_def)

lemma first_occurrences_distinct: "distinct xs \<Longrightarrow> first_occurrences xs = xs"
  by (simp add: first_occurrences_def distinct_remdups_id)

lemma other_keys_insert_index:
  "is_array_index k \<Longrightarrow>
     filter (\<lambda>k. \<not> is_array_index k) (own_keys (insert_index k v ps)) =
     filter (\<lambda>k. \<not> is_array_index k) (own_keys ps)"
  by (induction ps) auto

lemma other_keys_Create:
  "filter (\<lambda>k. \<not> is_array_index k) (own_keys (CreateDataProperty ps k v)) =
     (if k \<in> set (own_keys ps) \<or> is_array_index k
      then filter (\<lambda>k. \<not> is_array_index k) (own_keys ps)
      else filter (\<lambda>k. \<not> is_array_index k) (own_keys ps) @ [k])"
  by (simp add: CreateDataProperty_def own_keys_update other_keys_insert_index)

lemma other_keys_fromEntries:
  "filter (\<lambda>k. \<not> is_array_index k) (own_keys (Object_fromEntries es)) =
     first_occurrences (filter (\<lambda>k. \<not> is_array_index k) (map (\<lambda>e. ToPropertyKey (fst e)) es))"
proof (induction es rule: rev_induct)
  case Nil
  show ?case by (simp add: first_occurrences_def)
next
  case (snoc e es)
  then show ?case
    by (auto simp: fromEntries_snoc other_keys_Create set_own_keys_fromEntries first_occurrences_snoc)
qed

lemma enum_ordered_split:
  "sorted_wrt enum_before ks \<Longrightarrow>
     ks = filter is_array_index ks @ filter (\<lambda>k. \<not> is_array_index k) ks
     \<and> sorted_wrt (<) (map nat_of_string (filter is_array_index ks))"
proof (induction ks)
  case Nil
  show ?case by simp
next
  case (Cons k ks)
  show ?case
  proof (cases "is_array_index k")
    case True
    with Cons show ?thesis by (auto simp: enum_before_def)
  next
    case False
    with Cons.prems have "\<forall>x\<in>set ks. \<not> is_array_index x"
      by (auto simp: enum_before_def)
    then have "filter is_array_index ks = []" "filter (\<lambda>k. \<not> is_array_index k) ks = ks"
      by (simp_all add: filter_empty_conv)
    with False show ?thesis by simp
  qed
qed

section \<open>Applying EnumLike to its own result\<close>

lemma insert_index_last:
  "\<forall>q\<in>set ps. is_array_index (fst q) \<and> nat_of_string (fst q) < nat_of_string k \<Longrightarrow>
     insert_index k v ps = ps @ [(k, v)]"
  by (induction ps) auto

lemma Create_last:
  assumes "enum_ordered (ps @ [(k, v)])" and "k \<notin> set (own_keys ps)"
  shows "CreateDataProperty ps k v = ps @ [(k, v)]"
proof (cases "is_array_index k")
  case True
  have "\<forall>q\<in>set ps. enum_before (fst q) k"
    using assms(1) by (auto simp: enum_ordered_def sorted_wrt_append own_keys_def)
  with True have "\<forall>q\<in>set ps. is_array_index (fst q) \<and> nat_of_string (fst q) < nat_of_string k"
    by (auto simp: enum_before_def split: if_splits)
  then show ?thesis
    using True assms(2) by (simp add: CreateDataProperty_def insert_index_last)
next
  case False
  then show ?thesis using assms(2) by (simp add: CreateDataProperty_def)
qed

text \<open>
  A property list in enumeration order whose values are its keys is what
  \<^verbatim>\<open>Object.fromEntries\<close> builds from its keys.
\<close>

lemma fromEntries_own_keys:
  assumes "enum_ordered ps" and "distinct (own_keys ps)" and "\<forall>(k, v)\<in>set ps. v = Prim (JStr k)"
  shows "Object_fromEntries (map (\<lambda>key. (JStr key, JStr key)) (own_keys ps)) = ps"
  using assms
proof (induction ps rule: rev_induct)
  case Nil
  show ?case by simp
next
  case (snoc p ps)
  obtain k v where p: "p = (k, v)" by (cases p)
  from snoc.prems have ord: "enum_ordered ps"
    by (simp add: enum_ordered_def sorted_wrt_append)
  from snoc.prems p have new: "k \<notin> set (own_keys ps)" and v: "v = Prim (JStr k)"
    by auto
  have "Object_fromEntries (map (\<lambda>key. (JStr key, JStr key)) (own_keys ps)) = ps"
    using snoc ord by simp
  then have "Object_fromEntries (map (\<lambda>key. (JStr key, JStr key)) (own_keys (ps @ [p]))) =
      CreateDataProperty ps k v"
    using p v by (simp add: fromEntries_snoc)
  also have "\<dots> = ps @ [(k, v)]"
    using snoc.prems(1) new p by (intro Create_last) simp_all
  finally show ?case using p by simp
qed

lemma fromEntries_fixed:
  assumes "ps = Object_fromEntries (map (\<lambda>key. (JStr key, JStr key)) ss)"
  shows "Object_fromEntries (map (\<lambda>key. (JStr key, JStr key)) (own_keys ps)) = ps"
proof (rule fromEntries_own_keys)
  show "enum_ordered ps" by (simp add: assms enum_ordered_fromEntries)
  show "distinct (own_keys ps)" by (simp add: assms distinct_own_keys_fromEntries)
  show "\<forall>(k, v)\<in>set ps. v = Prim (JStr k)"
    using set_fromEntries_subset [of "map (\<lambda>key. (JStr key, JStr key)) ss"] assms by auto
qed

lemma twice_new_object:
  assumes "f h v = Inr (new_object h ps)"
    and "f (h @ [Obj ps]) (Ref (length h)) = Inr (new_object (h @ [Obj ps]) ps)"
  shows "result_cell (f h v) = Some (Obj ps) \<and> result_cell (twice f h v) = Some (Obj ps)"
  using assms by (simp add: twice_def result_cell_def new_object_def nth_append)

text \<open>
  Claim C9, as stated, asks that for every array or object argument a second call, on
  the object the first call returned, returns an equal object. It fails on the array
  \<^verbatim>\<open>[1]\<close>: the first call returns \<^verbatim>\<open>{'1': 1}\<close>, whose value is the number, and the second
  returns \<^verbatim>\<open>{'1': '1'}\<close>, whose value is the key string.
\<close>

theorem enum_like_not_idempotent_on_numbers:
  "result_cell (EnumLike [Arr [JNum 1]] (Ref 0)) = Some (Obj [(''1'', Prim (JNum 1))])
   \<and> result_cell (twice EnumLike [Arr [JNum 1]] (Ref 0)) = Some (Obj [(''1'', Prim (JStr ''1''))])
   \<and> result_cell (twice EnumLike [Arr [JNum 1]] (Ref 0)) \<noteq> result_cell (EnumLike [Arr [JNum 1]] (Ref 0))"
  by (simp add: eval_simps ToString_number_def result_cell_def twice_def)

text \<open>
  Claim C9, amended. For every object argument and for every array argument whose
  elements are strings, both copies return an object, and a second call on that object
  returns an object with the same properties in the same order.
\<close>

theorem enum_like_idempotent:
  assumes "a < length h"
    and "(\<exists>m. h ! a = Obj m) \<or> (\<exists>ss. h ! a = Arr (map JStr ss))"
  shows "\<exists>ps. result_cell (EnumLike h (Ref a)) = Some (Obj ps)
           \<and> result_cell (twice EnumLike h (Ref a)) = Some (Obj ps)
           \<and> result_cell (EnumLike_lib h (Ref a)) = Some (Obj ps)
           \<and> result_cell (twice EnumLike_lib h (Ref a)) = Some (Obj ps)"
proof -
  obtain ss where first:
    "EnumLike h (Ref a) = Inr (new_object h (Object_fromEntries (map (\<lambda>key. (JStr key, JStr key)) ss)))"
    "EnumLike_lib h (Ref a) = Inr (new_object h (Object_fromEntries (map (\<lambda>key. (JStr key, JStr key)) ss)))"
  proof (cases "h ! a")
    case (Obj m)
    then show ?thesis
      using that [of "own_keys m"] by (simp add: EnumLike_object EnumLike_lib_object)
  next
    case (Arr ks)
    with assms(2) obtain ss where "ks = map JStr ss" by auto
    then show ?thesis
      using that [of ss] Arr by (simp add: EnumLike_array EnumLike_lib_array comp_def)
  qed
  let ?ps = "Object_fromEntries (map (\<lambda>key. (JStr key, JStr key)) ss)"
  have again: "Object_fromEntries (map (\<lambda>key. (JStr key, JStr key)) (own_keys ?ps)) = ?ps"
    by (rule fromEntries_fixed) simp
  have cell: "(h @ [Obj ?ps]) ! length h = Obj ?ps" by simp
  have "EnumLike (h @ [Obj ?ps]) (Ref (length h)) = Inr (new_object (h @ [Obj ?ps]) ?ps)"
    "EnumLike_lib (h @ [Obj ?ps]) (Ref (length h)) = Inr (new_object (h @ [Obj ?ps]) ?ps)"
    using EnumLike_object [OF cell] EnumLike_lib_object [OF cell] again by simp_all
  with first show ?thesis
    using twice_new_object [of EnumLike h "Ref a" ?ps] twice_new_object [of EnumLike_lib h "Ref a" ?ps]
    by blast
qed

theorem enum_like_idempotent_witness:
  "\<exists>ps. result_cell (EnumLike [Arr [JStr ''b'', JStr ''1'']] (Ref 0)) = Some (Obj ps)
           \<and> result_cell (twice EnumLike [Arr [JStr ''b'', JStr ''1'']] (Ref 0)) = Some (Obj ps)
           \<and> result_cell (EnumLike_lib [Arr [JStr ''b'', JStr ''1'']] (Ref 0)) = Some (Obj ps)
           \<and> result_cell (twice EnumLike_lib [Arr [JStr ''b'', JStr ''1'']] (Ref 0)) = Some (Obj ps)"
proof -
  have "[Arr [JStr ''b'', JStr ''1'']] ! 0 = Arr (map JStr [''b'', ''1''])" by simp
  then show ?thesis
    using enum_like_idempotent [of 0 "[Arr [JStr ''b'', JStr ''1'']]"] by blast
qed

section \<open>The order of the keys of the result\<close>

text \<open>
  Claim C4, as stated, asks that for every array argument the keys of the result are
  enumerated in the order of the array. It fails on \<^verbatim>\<open>['b', '1']\<close>: the result
  enumerates its keys as \<^verbatim>\<open>['1', 'b']\<close>, the array index first.
\<close>

theorem enum_like_order_differs:
  "result_keys (EnumLike [Arr [JStr ''b'', JStr ''1'']] (Ref 0)) = Some [''1'', ''b'']
   \<and> result_keys (EnumLike [Arr [JStr ''b'', JStr ''1'']] (Ref 0))
       \<noteq> Some (map ToPropertyKey [JStr ''b'', JStr ''1''])"
  by (simp add: eval_simps result_keys_def result_cell_def)

text \<open>
  Claim C4, amended. For every array argument (its numbers being safe integers), the
  result enumerates its array-index keys
  first, in ascending numeric order, and then its other keys in the order of their first
  occurrence in the array. So for an array of elements that are distinct as property keys
  and none of which is an array index, the keys of the result are enumerated in the order
  of the array.
\<close>

theorem enum_like_key_order:
  assumes "a < length h" and "h ! a = Arr ks" and "\<forall>k\<in>set ks. safe_key k"
  shows "\<exists>ps. EnumLike h (Ref a) = Inr (h @ [Obj ps], Ref (length h))
           \<and> EnumLike_lib h (Ref a) = Inr (h @ [Obj ps], Ref (length h))
           \<and> own_keys ps = filter is_array_index (own_keys ps) @ filter (\<lambda>k. \<not> is_array_index k) (own_keys ps)
           \<and> sorted_wrt (<) (map nat_of_string (filter is_array_index (own_keys ps)))
           \<and> filter (\<lambda>k. \<not> is_array_index k) (own_keys ps)
               = first_occurrences (filter (\<lambda>k. \<not> is_array_index k) (map ToPropertyKey ks))
           \<and> (distinct (map ToPropertyKey ks) \<and> (\<forall>k\<in>set ks. \<not> is_array_index (ToPropertyKey k))
                \<longrightarrow> own_keys ps = map ToPropertyKey ks)"
proof -
  let ?ps = "Object_fromEntries (map (\<lambda>key. (key, key)) ks)"
  let ?other = "\<lambda>k. \<not> is_array_index k"
  have "sorted_wrt enum_before (own_keys ?ps)"
    using enum_ordered_fromEntries [of "map (\<lambda>key. (key, key)) ks"] by (simp only: enum_ordered_def)
  then have split: "own_keys ?ps = filter is_array_index (own_keys ?ps) @ filter ?other (own_keys ?ps)"
    and sorted: "sorted_wrt (<) (map nat_of_string (filter is_array_index (own_keys ?ps)))"
    by (rule enum_ordered_split [THEN conjunct1], rule enum_ordered_split [THEN conjunct2])
  have other: "filter ?other (own_keys ?ps) = first_occurrences (filter ?other (map ToPropertyKey ks))"
    by (simp add: other_keys_fromEntries comp_def)
  have same: "own_keys ?ps = map ToPropertyKey ks"
    if d: "distinct (map ToPropertyKey ks)" and n: "\<forall>k\<in>set ks. \<not> is_array_index (ToPropertyKey k)"
  proof -
    have keys: "set (own_keys ?ps) = ToPropertyKey ` set ks"
      by (simp add: set_own_keys_fromEntries image_image)
    have "\<forall>k\<in>set (own_keys ?ps). \<not> is_array_index k"
      using n unfolding keys by blast
    then have f1: "filter ?other (own_keys ?ps) = own_keys ?ps"
      by (rule filter_True)
    have "\<forall>k\<in>set (map ToPropertyKey ks). \<not> is_array_index k"
      using n by simp
    then have f2: "filter ?other (map ToPropertyKey ks) = map ToPropertyKey ks"
      by (rule filter_True)
    have "own_keys ?ps = first_occurrences (filter ?other (map ToPropertyKey ks))"
      using other unfolding f1 .
    also have "\<dots> = first_occurrences (map ToPropertyKey ks)"
      unfolding f2 ..
    also have "\<dots> = map ToPropertyKey ks"
      using d by (rule first_occurrences_distinct)
    finally show ?thesis .
  qed
  have res: "EnumLike h (Ref a) = Inr (h @ [Obj ?ps], Ref (length h))"
    "EnumLike_lib h (Ref a) = Inr (h @ [Obj ?ps], Ref (length h))"
    using EnumLike_array [OF assms(2)] EnumLike_lib_array [OF assms(2)]
    by (simp_all add: new_object_def)
  show ?thesis
  proof (intro exI [of _ ?ps] conjI impI)
    show "EnumLike h (Ref a) = Inr (h @ [Obj ?ps], Ref (length h))" by (rule res(1))
    show "EnumLike_lib h (Ref a) = Inr (h @ [Obj ?ps], Ref (length h))" by (rule res(2))
    show "own_keys ?ps = filter is_array_index (own_keys ?ps) @ filter ?other (own_keys ?ps)"
      by (rule split)
    show "sorted_wrt (<) (map nat_of_string (filter is_array_index (own_keys ?ps)))"
      by (rule sorted)
    show "filter ?other (own_keys ?ps) = first_occurrences (filter ?other (map ToPropertyKey ks))"
      by (rule other)
    show "own_keys ?ps = map ToPropertyKey ks"
      if "distinct (map ToPropertyKey ks) \<and> (\<forall>k\<in>set ks. \<not> is_array_index (ToPropertyKey k))"
      using that same by blast
  qed
qed

theorem enum_like_key_order_witness:
  "\<exists>ps. EnumLike [Arr [JStr ''pending'', JStr ''completed'', JStr ''failed'']] (Ref 0)
           = Inr ([Arr [JStr ''pending'', JStr ''completed'', JStr ''failed''], Obj ps], Ref 1)
       \<and> EnumLike_lib [Arr [JStr ''pending'', JStr ''completed'', JStr ''failed'']] (Ref 0)
           = Inr ([Arr [JStr ''pending'', JStr ''completed'', JStr ''failed''], Obj ps], Ref 1)
       \<and> own_keys ps = [''pending'', ''completed'', ''failed'']"
proof -
  let ?ks = "[JStr ''pending'', JStr ''completed'', JStr ''failed'']"
  have d: "distinct (map ToPropertyKey ?ks)" by simp
  have n: "\<forall>k\<in>set ?ks. \<not> is_array_index (ToPropertyKey k)"
    by (simp add: is_array_index_def nat_of_string_def digit_val_def string_of_nat.simps digit_char_def)
  have s: "\<forall>k\<in>set ?ks. safe_key k" by simp
  have "0 < length [Arr ?ks]" and "[Arr ?ks] ! 0 = Arr ?ks"
    by simp_all
  from enum_like_key_order [OF this s] d n
  obtain ps where "EnumLike [Arr ?ks] (Ref 0) = Inr ([Arr ?ks] @ [Obj ps], Ref (length [Arr ?ks]))"
    and "EnumLike_lib [Arr ?ks] (Ref 0) = Inr ([Arr ?ks] @ [Obj ps], Ref (length [Arr ?ks]))"
    and "own_keys ps = map ToPropertyKey ?ks"
    by blast
  then show ?thesis
    by (intro exI [of _ ps]) simp
qed

end
